theory Spec2Isabelle
  imports Complex_Main "HOL-Library.Sublist"
begin

section \<open>Timers of the event loop\<close>

text \<open>
  Both components arm one-shot timers with \<^verbatim>\<open>setTimeout\<close> and cancel them with
  \<^verbatim>\<open>clearTimeout\<close>. An armed timer is kept with its handle, the delay it was armed
  with, the instant at which it becomes due and the argument its callback closes over.
  Handles are positive integers, so a stored handle is truthy exactly when it is not
  \<^verbatim>\<open>null\<close>; a handle variable is an \<open>option\<close>.
\<close>

record 'a timer =
  tid :: nat
  delay :: nat
  due :: nat
  callback :: 'a

definition clearTimeout :: "nat \<Rightarrow> 'a timer list \<Rightarrow> 'a timer list" where
  "clearTimeout t ts = filter (\<lambda>x. tid x \<noteq> t) ts"

definition find_timer :: "nat \<Rightarrow> 'a timer list \<Rightarrow> 'a timer option" where
  "find_timer t ts = find (\<lambda>x. tid x = t) ts"

section \<open>The job controller (hook useDiagnosticJob)\<close>

subsection \<open>Data of the job API\<close>

datatype JobStatus = pending | processing | completed | failed

text \<open>The analysis result is opaque to the controller: it is a type parameter.\<close>

record 'r JobResponse =
  job_id :: string
  status :: JobStatus
  submitted_at :: "string option"
  result :: "'r option"

text \<open>
  A rejected request carries an error object; only its \<^verbatim>\<open>message\<close> is read, through
  \<^verbatim>\<open>err.message || fallback\<close>: a missing or empty message gives the fallback.
\<close>

definition message_or :: "string option \<Rightarrow> string \<Rightarrow> string" where
  "message_or m fallback = (case m of None \<Rightarrow> fallback | Some t \<Rightarrow> if t = [] then fallback else t)"

subsection \<open>State\<close>

text \<open>
  The first four fields are the hook's own state (three \<^verbatim>\<open>useState\<close> cells and the
  \<^verbatim>\<open>pollTimeout\<close> ref). The others are the environment the hook talks to: the armed
  timers (each closing over the job id it will poll), the requests in flight and the clock.
\<close>

record 'r controller =
  job :: "'r JobResponse option"
  error :: "string option"
  isLoading :: bool
  pollTimeout :: "nat option"
  poll_timers :: "string timer list"
  next_poll_timer :: nat
  submits :: "(nat \<times> string) list"
  polls :: "(nat \<times> string) list"
  next_request :: nat
  clock :: nat

definition controller_init :: "'r controller" where
  "controller_init = \<lparr> job = None, error = None, isLoading = False, pollTimeout = None,
     poll_timers = [], next_poll_timer = 1, submits = [], polls = [], next_request = 0,
     clock = 0 \<rparr>"

subsection \<open>Operations\<close>

definition stopPolling :: "'r controller \<Rightarrow> 'r controller" where
  "stopPolling s =
     (case pollTimeout s of
        Some t \<Rightarrow> s\<lparr> poll_timers := clearTimeout t (poll_timers s), pollTimeout := None \<rparr>
      | None \<Rightarrow> s)"

text \<open>
  \<^verbatim>\<open>pollStatus\<close> is an async function. Its synchronous part issues the status request;
  the two continuations run when the request resolves or rejects.
\<close>

definition pollStatus :: "string \<Rightarrow> 'r controller \<Rightarrow> 'r controller" where
  "pollStatus jobId s =
     s\<lparr> polls := polls s @ [(next_request s, jobId)], next_request := Suc (next_request s) \<rparr>"

definition pollStatus_resolved :: "string \<Rightarrow> 'r JobResponse \<Rightarrow> 'r controller \<Rightarrow> 'r controller" where
  "pollStatus_resolved jobId jobStatus s =
     (let s1 = s\<lparr> job := Some jobStatus \<rparr> in
      if status jobStatus = completed \<or> status jobStatus = failed
      then (stopPolling s1)\<lparr> isLoading := False \<rparr>
      else s1\<lparr> poll_timers := poll_timers s1 @
                   [\<lparr> tid = next_poll_timer s1, delay = 1000, due = clock s1 + 1000,
                      callback = jobId \<rparr>],
               next_poll_timer := Suc (next_poll_timer s1),
               pollTimeout := Some (next_poll_timer s1) \<rparr>)"

definition pollStatus_rejected :: "string option \<Rightarrow> 'r controller \<Rightarrow> 'r controller" where
  "pollStatus_rejected err s =
     (stopPolling (s\<lparr> error := Some (message_or err ''Failed to poll job status'') \<rparr>))
       \<lparr> isLoading := False \<rparr>"

definition submit :: "string \<Rightarrow> 'r controller \<Rightarrow> 'r controller" where
  "submit file s =
     (let s1 = s\<lparr> isLoading := True, error := None, job := None \<rparr> in
      s1\<lparr> submits := submits s1 @ [(next_request s1, file)],
          next_request := Suc (next_request s1) \<rparr>)"

definition submit_resolved :: "'r JobResponse \<Rightarrow> 'r controller \<Rightarrow> 'r controller" where
  "submit_resolved response s = pollStatus (job_id response) (s\<lparr> job := Some response \<rparr>)"

definition submit_rejected :: "string option \<Rightarrow> 'r controller \<Rightarrow> 'r controller" where
  "submit_rejected err s =
     s\<lparr> error := Some (message_or err ''Failed to submit job''), isLoading := False \<rparr>"

definition reset :: "'r controller \<Rightarrow> 'r controller" where
  "reset s = (stopPolling s)\<lparr> job := None, error := None, isLoading := False \<rparr>"

definition unmount :: "'r controller \<Rightarrow> 'r controller" where
  "unmount s = stopPolling s"

text \<open>The derived \<^verbatim>\<open>result\<close> the hook returns: \<^verbatim>\<open>job?.result || null\<close>.\<close>

definition result_of :: "'r controller \<Rightarrow> 'r option" where
  "result_of s = (case job s of None \<Rightarrow> None | Some j \<Rightarrow> result j)"

subsection \<open>Events\<close>

text \<open>
  One event is one task of the event loop: a call by the consumer, the settlement of a
  request in flight, a due timer firing, or time passing. An event that cannot happen
  in the current state (a request that is not in flight, a timer that is not armed or not
  yet due) gives \<open>None\<close>.
\<close>

datatype 'r job_event =
    Submit string
  | SubmitResolved nat "'r JobResponse"
  | SubmitRejected nat "string option"
  | StatusResolved nat "'r JobResponse"
  | StatusRejected nat "string option"
  | PollTimerFired nat
  | Reset
  | Unmount
  | Elapse nat

definition drop_request :: "nat \<Rightarrow> (nat \<times> string) list \<Rightarrow> (nat \<times> string) list" where
  "drop_request r rs = filter (\<lambda>x. fst x \<noteq> r) rs"

fun job_step :: "'r job_event \<Rightarrow> 'r controller \<Rightarrow> 'r controller option" where
  "job_step (Submit file) s = Some (submit file s)"
| "job_step (SubmitResolved r response) s =
     (case map_of (submits s) r of
        None \<Rightarrow> None
      | Some _ \<Rightarrow> Some (submit_resolved response (s\<lparr> submits := drop_request r (submits s) \<rparr>)))"
| "job_step (SubmitRejected r err) s =
     (case map_of (submits s) r of
        None \<Rightarrow> None
      | Some _ \<Rightarrow> Some (submit_rejected err (s\<lparr> submits := drop_request r (submits s) \<rparr>)))"
| "job_step (StatusResolved r jobStatus) s =
     (case map_of (polls s) r of
        None \<Rightarrow> None
      | Some jobId \<Rightarrow>
          Some (pollStatus_resolved jobId jobStatus (s\<lparr> polls := drop_request r (polls s) \<rparr>)))"
| "job_step (StatusRejected r err) s =
     (case map_of (polls s) r of
        None \<Rightarrow> None
      | Some _ \<Rightarrow> Some (pollStatus_rejected err (s\<lparr> polls := drop_request r (polls s) \<rparr>)))"
| "job_step (PollTimerFired t) s =
     (case find_timer t (poll_timers s) of
        None \<Rightarrow> None
      | Some tm \<Rightarrow>
          if due tm \<le> clock s
          then Some (pollStatus (callback tm) (s\<lparr> poll_timers := clearTimeout t (poll_timers s) \<rparr>))
          else None)"
| "job_step Reset s = Some (reset s)"
| "job_step Unmount s = Some (unmount s)"
| "job_step (Elapse d) s = Some (s\<lparr> clock := clock s + d \<rparr>)"

fun job_run :: "'r job_event list \<Rightarrow> 'r controller \<Rightarrow> 'r controller option" where
  "job_run [] s = Some s"
| "job_run (e # es) s = (case job_step e s of None \<Rightarrow> None | Some s' \<Rightarrow> job_run es s')"

section \<open>The telemetry channel (class TelemetryWebSocket)\<close>

subsection \<open>Messages\<close>

text \<open>
  What \<^verbatim>\<open>JSON.parse\<close> returns. An object is the list of its properties (a parsed
  object has each key once). The parser itself belongs to the platform: it is a parameter
  of the model, \<open>None\<close> standing for the \<^verbatim>\<open>SyntaxError\<close> it throws.
\<close>

datatype json = JNull | JBool bool | JNum real | JStr string | JArr "json list"
  | JObj "(string \<times> json) list"

subsection \<open>Listeners and the listener set\<close>

text \<open>
  A listener is a function supplied by a consumer; the set holds listeners by identity,
  so a listener is named by a number. What a listener does to the channel when it is
  called is given by the environment: the subscriptions it adds or removes while it
  runs, and whether it returns or throws.
\<close>

datatype action = Subscribe nat | Unsubscribe nat

datatype completion = Normal | Thrown

record env =
  JSON_parse :: "string \<Rightarrow> json option"
  listener :: "nat \<Rightarrow> json \<Rightarrow> action list \<times> completion"

text \<open>
  The \<^verbatim>\<open>Set\<close> of listeners, as the language defines it: a list of entries in insertion
  order, where \<^verbatim>\<open>delete\<close> empties an entry in place and \<^verbatim>\<open>add\<close> appends an element
  that is not present.
\<close>

definition set_add :: "nat \<Rightarrow> nat option list \<Rightarrow> nat option list" where
  "set_add l entries = (if Some l \<in> set entries then entries else entries @ [Some l])"

definition set_delete :: "nat \<Rightarrow> nat option list \<Rightarrow> nat option list" where
  "set_delete l entries = map (\<lambda>e. if e = Some l then None else e) entries"

fun members :: "nat option list \<Rightarrow> nat list" where
  "members [] = []"
| "members (None # es) = members es"
| "members (Some l # es) = l # members es"

fun perform :: "action \<Rightarrow> nat option list \<Rightarrow> nat option list" where
  "perform (Subscribe l) entries = set_add l entries"
| "perform (Unsubscribe l) entries = set_delete l entries"

text \<open>
  \<^verbatim>\<open>Set.prototype.forEach\<close>: the index walks the entries, skipping the emptied ones and
  re-reading the length after every call, so entries appended during the walk are
  visited too. A callback that throws ends the walk. Listeners that keep adding
  listeners make the walk endless: the result is then \<open>None\<close>. Every call of a
  listener is recorded with the value it was given.
\<close>

partial_function (option) forEach ::
  "(nat \<Rightarrow> json \<Rightarrow> action list \<times> completion) \<Rightarrow> json \<Rightarrow> nat \<Rightarrow> nat option list \<Rightarrow>
     (nat \<times> json) list \<Rightarrow> (completion \<times> nat option list \<times> (nat \<times> json) list) option"
where
  "forEach call data i entries calls =
     (if i < length entries then
        (case entries ! i of
           None \<Rightarrow> forEach call data (Suc i) entries calls
         | Some l \<Rightarrow>
             (case call l data of
                (acts, Thrown) \<Rightarrow> Some (Thrown, fold perform acts entries, calls @ [(l, data)])
              | (acts, Normal) \<Rightarrow>
                  forEach call data (Suc i) (fold perform acts entries) (calls @ [(l, data)])))
      else Some (Normal, entries, calls))"

declare forEach.simps [code]

subsection \<open>State\<close>

text \<open>
  The fields \<open>ws\<close>, \<open>listeners\<close>, \<open>reconnectTimeout\<close> and \<open>isExplicitlyClosed\<close> are
  the object's. The rest is its environment: the \<^verbatim>\<open>readyState\<close> of every socket created
  so far (a socket is named by its index), the armed timers, the calls made to listeners,
  the console and the clock.
\<close>

datatype readyState = CONNECTING | OPEN | CLOSING | CLOSED

record channel =
  ws :: "nat option"
  sockets :: "readyState list"
  listeners :: "nat option list"
  reconnectTimeout :: "nat option"
  isExplicitlyClosed :: bool
  reconnect_timers :: "unit timer list"
  next_reconnect_timer :: nat
  delivered :: "(nat \<times> json) list"
  console :: "string list"
  wclock :: nat

definition channel_init :: channel where
  "channel_init = \<lparr> ws = None, sockets = [], listeners = [], reconnectTimeout = None,
     isExplicitlyClosed = False, reconnect_timers = [], next_reconnect_timer = 1,
     delivered = [], console = [], wclock = 0 \<rparr>"

subsection \<open>Operations\<close>

text \<open>
  \<open>ws\<close> only ever holds a socket that was created; reading the state of any other
  index gives \<open>CLOSED\<close>. \<^verbatim>\<open>WebSocket.close()\<close> moves a connecting or open socket to
  \<open>CLOSING\<close> and does nothing otherwise; the close event comes later.
\<close>

definition readyState_of :: "channel \<Rightarrow> nat \<Rightarrow> readyState" where
  "readyState_of s i = (if i < length (sockets s) then sockets s ! i else CLOSED)"

definition close :: "nat \<Rightarrow> channel \<Rightarrow> channel" where
  "close i s =
     (if readyState_of s i = CONNECTING \<or> readyState_of s i = OPEN
      then s\<lparr> sockets := (sockets s)[i := CLOSING] \<rparr> else s)"

definition console_log :: "string \<Rightarrow> channel \<Rightarrow> channel" where
  "console_log m s = s\<lparr> console := console s @ [m] \<rparr>"

definition connect :: "channel \<Rightarrow> channel" where
  "connect s =
     (if (case ws s of None \<Rightarrow> False
          | Some i \<Rightarrow> readyState_of s i = OPEN \<or> readyState_of s i = CONNECTING)
      then s
      else s\<lparr> isExplicitlyClosed := False, ws := Some (length (sockets s)),
              sockets := sockets s @ [CONNECTING] \<rparr>)"

definition onopen :: "channel \<Rightarrow> channel" where
  "onopen s =
     (let s1 = console_log ''WebSocket connected'' s in
      case reconnectTimeout s1 of
        Some t \<Rightarrow> s1\<lparr> reconnect_timers := clearTimeout t (reconnect_timers s1),
                      reconnectTimeout := None \<rparr>
      | None \<Rightarrow> s1)"

definition notifyListeners :: "env \<Rightarrow> json \<Rightarrow> channel \<Rightarrow> (completion \<times> channel) option" where
  "notifyListeners E data s =
     (case forEach (listener E) data 0 (listeners s) (delivered s) of
        None \<Rightarrow> None
      | Some (c, entries, calls) \<Rightarrow> Some (c, s\<lparr> listeners := entries, delivered := calls \<rparr>))"

text \<open>
  The message handler is a \<^verbatim>\<open>try\<close> block (parse, then notify) and a \<^verbatim>\<open>catch\<close> that
  logs whatever the block threw.
\<close>

definition onmessage_try :: "env \<Rightarrow> string \<Rightarrow> channel \<Rightarrow> (completion \<times> channel) option" where
  "onmessage_try E payload s =
     (case JSON_parse E payload of
        None \<Rightarrow> Some (Thrown, s)
      | Some data \<Rightarrow> notifyListeners E data s)"

definition onmessage :: "env \<Rightarrow> string \<Rightarrow> channel \<Rightarrow> (completion \<times> channel) option" where
  "onmessage E payload s =
     (case onmessage_try E payload s of
        None \<Rightarrow> None
      | Some (Thrown, s1) \<Rightarrow> Some (Normal, console_log ''Failed to parse WebSocket message'' s1)
      | Some (Normal, s1) \<Rightarrow> Some (Normal, s1))"

definition scheduleReconnect :: "channel \<Rightarrow> channel" where
  "scheduleReconnect s =
     (case reconnectTimeout s of
        Some t \<Rightarrow> s
      | None \<Rightarrow>
          s\<lparr> reconnect_timers := reconnect_timers s @
                 [\<lparr> tid = next_reconnect_timer s, delay = 3000, due = wclock s + 3000,
                    callback = () \<rparr>],
              next_reconnect_timer := Suc (next_reconnect_timer s),
              reconnectTimeout := Some (next_reconnect_timer s) \<rparr>)"

definition reconnect_callback :: "channel \<Rightarrow> channel" where
  "reconnect_callback s =
     connect ((console_log ''Reconnecting WebSocket...'' s)\<lparr> reconnectTimeout := None \<rparr>)"

definition onclose :: "channel \<Rightarrow> channel" where
  "onclose s =
     (let s1 = console_log ''WebSocket disconnected'' s in
      if \<not> isExplicitlyClosed s1 then scheduleReconnect s1 else s1)"

definition onerror :: "channel \<Rightarrow> channel" where
  "onerror s =
     (let s1 = console_log ''WebSocket error'' s in
      case ws s1 of Some i \<Rightarrow> close i s1 | None \<Rightarrow> s1)"

definition disconnect :: "channel \<Rightarrow> channel" where
  "disconnect s =
     (let s1 = s\<lparr> isExplicitlyClosed := True \<rparr>;
          s2 = (case ws s1 of Some i \<Rightarrow> (close i s1)\<lparr> ws := None \<rparr> | None \<Rightarrow> s1)
      in case reconnectTimeout s2 of
           Some t \<Rightarrow> s2\<lparr> reconnect_timers := clearTimeout t (reconnect_timers s2) \<rparr>
         | None \<Rightarrow> s2)"

text \<open>\<^verbatim>\<open>subscribe\<close> adds the listener and returns the function that deletes it again.\<close>

definition subscribe :: "nat \<Rightarrow> channel \<Rightarrow> channel" where
  "subscribe l s = s\<lparr> listeners := set_add l (listeners s) \<rparr>"

definition unsubscribe :: "nat \<Rightarrow> channel \<Rightarrow> channel" where
  "unsubscribe l s = s\<lparr> listeners := set_delete l (listeners s) \<rparr>"

subsection \<open>Events\<close>

text \<open>
  The calls of the consumers, the events of the sockets and the reconnect timer. A socket
  opens only while connecting and receives frames only while open. When a connection
  ends, the platform first sets the socket's state to \<open>CLOSED\<close>, then fires the error
  event if the connection failed, then the close event: \<open>SockClosed i withError\<close> is that
  one task. Every socket carries the same four handlers, which read the object's current
  fields, not the socket they were installed on. \<open>None\<close> is an event that cannot
  happen in the state, or a dispatch that never ends.
\<close>

datatype chan_event =
    Connect
  | Disconnect
  | SubscribeListener nat
  | UnsubscribeListener nat
  | SockOpen nat
  | SockMessage nat string
  | SockClosed nat bool
  | ReconnectTimerFired nat
  | Wait nat

fun chan_step :: "env \<Rightarrow> chan_event \<Rightarrow> channel \<Rightarrow> channel option" where
  "chan_step E Connect s = Some (connect s)"
| "chan_step E Disconnect s = Some (disconnect s)"
| "chan_step E (SubscribeListener l) s = Some (subscribe l s)"
| "chan_step E (UnsubscribeListener l) s = Some (unsubscribe l s)"
| "chan_step E (SockOpen i) s =
     (if i < length (sockets s) \<and> sockets s ! i = CONNECTING
      then Some (onopen (s\<lparr> sockets := (sockets s)[i := OPEN] \<rparr>)) else None)"
| "chan_step E (SockMessage i payload) s =
     (if i < length (sockets s) \<and> sockets s ! i = OPEN
      then map_option snd (onmessage E payload s) else None)"
| "chan_step E (SockClosed i withError) s =
     (if i < length (sockets s) \<and> sockets s ! i \<noteq> CLOSED
      then (let s1 = s\<lparr> sockets := (sockets s)[i := CLOSED] \<rparr>
            in Some (onclose (if withError then onerror s1 else s1)))
      else None)"
| "chan_step E (ReconnectTimerFired t) s =
     (case find_timer t (reconnect_timers s) of
        None \<Rightarrow> None
      | Some tm \<Rightarrow>
          if due tm \<le> wclock s
          then Some (reconnect_callback (s\<lparr> reconnect_timers := clearTimeout t (reconnect_timers s) \<rparr>))
          else None)"
| "chan_step E (Wait d) s = Some (s\<lparr> wclock := wclock s + d \<rparr>)"

fun chan_run :: "env \<Rightarrow> chan_event list \<Rightarrow> channel \<Rightarrow> channel option" where
  "chan_run E [] s = Some s"
| "chan_run E (e # es) s = (case chan_step E e s of None \<Rightarrow> None | Some s' \<Rightarrow> chan_run E es s')"

section \<open>The telemetry hook (useWebSocket)\<close>

text \<open>
  The hook connects the shared channel on mount and subscribes one listener, which it
  unsubscribes on unmount; it never disconnects the channel. Its state is changed by its
  listener only. Reading \<^verbatim>\<open>message.type\<close> throws a \<^verbatim>\<open>TypeError\<close> when the message is
  \<^verbatim>\<open>null\<close>; on any other value that is not an object, and on an object without the
  property, the read gives \<^verbatim>\<open>undefined\<close>.
\<close>

record hook_state =
  telemetry :: "json option"
  isConnected :: bool

definition hook_init :: hook_state where
  "hook_init = \<lparr> telemetry = None, isConnected = False \<rparr>"

fun property_of :: "json \<Rightarrow> string \<Rightarrow> json option" where
  "property_of (JObj kvs) k = map_of kvs k"
| "property_of other k = None"

definition useWebSocket_listener :: "json \<Rightarrow> hook_state \<Rightarrow> completion \<times> hook_state" where
  "useWebSocket_listener message h =
     (if message = JNull then (Thrown, h)
      else if property_of message ''type'' = Some (JStr ''telemetry'')
      then (Normal, h\<lparr> telemetry := property_of message ''data'', isConnected := True \<rparr>)
      else if property_of message ''type'' = Some (JStr ''pong'')
      then (Normal, h\<lparr> isConnected := True \<rparr>)
      else (Normal, h))"

definition mount :: "nat \<Rightarrow> chan_event list" where
  "mount l = [Connect, SubscribeListener l]"

definition unmount_hook :: "nat \<Rightarrow> chan_event list" where
  "unmount_hook l = [UnsubscribeListener l]"

text \<open>
  The hook whose listener is \<open>l\<close>, seen from the channel: its listener changes no
  subscription and throws exactly on \<^verbatim>\<open>null\<close>; its state is the result of the calls
  its listener received, in order.
\<close>

definition hook_listener :: "nat \<Rightarrow> json \<Rightarrow> action list \<times> completion" where
  "hook_listener l message = ([], fst (useWebSocket_listener message hook_init))"

definition received :: "nat \<Rightarrow> channel \<Rightarrow> json list" where
  "received l s = map snd (filter (\<lambda>c. fst c = l) (delivered s))"

definition useWebSocket :: "nat \<Rightarrow> channel \<Rightarrow> hook_state" where
  "useWebSocket l s = fold (\<lambda>message h. snd (useWebSocket_listener message h)) (received l s) hook_init"

section \<open>Notions used to state the properties\<close>






text \<open>
  Without changes of the subscriptions during a dispatch, the listeners a message reaches
  are the subscribed ones in insertion order, up to and including the first that throws;
  the dispatch then completes as that listener did.
\<close>

fun reached :: "(nat \<Rightarrow> json \<Rightarrow> action list \<times> completion) \<Rightarrow> json \<Rightarrow> nat list \<Rightarrow> nat list" where
  "reached call m [] = []"
| "reached call m (l # ls) = l # (if snd (call l m) = Thrown then [] else reached call m ls)"

fun outcome :: "(nat \<Rightarrow> json \<Rightarrow> action list \<times> completion) \<Rightarrow> json \<Rightarrow> nat list \<Rightarrow> completion" where
  "outcome call m [] = Normal"
| "outcome call m (l # ls) = (if snd (call l m) = Thrown then Thrown else outcome call m ls)"

text \<open>Entries after deletions only: each entry is as it was, or emptied.\<close>

definition emptied :: "nat option list \<Rightarrow> nat option list \<Rightarrow> bool" where
  "emptied es es' = list_all2 (\<lambda>a b. b = None \<or> b = a) es es'"

text \<open>
  The reconnect timer: at most one is armed, the stored handle is its handle, and it was
  armed with 3000 ms.
\<close>

definition timers_tracked :: "channel \<Rightarrow> bool" where
  "timers_tracked s =
     (length (reconnect_timers s) \<le> 1 \<and>
      (\<forall>t \<in> set (reconnect_timers s).
         reconnectTimeout s = Some (tid t) \<and> delay t = 3000 \<and> due t \<le> wclock s + 3000))"

text \<open>Reconnection is suppressed: the flag is set, no socket is held, no timer is armed.\<close>

definition suppressed :: "channel \<Rightarrow> bool" where
  "suppressed s = (isExplicitlyClosed s \<and> ws s = None \<and> reconnect_timers s = [])"

text \<open>
  Reconnection is not suppressed: the flag is clear and a stored handle is the handle of
  an armed timer.
\<close>

definition handle_live :: "channel \<Rightarrow> bool" where
  "handle_live s =
     (\<not> isExplicitlyClosed s \<and>
      (\<forall>t. reconnectTimeout s = Some t \<longrightarrow> (\<exists>tm \<in> set (reconnect_timers s). tid tm = t)))"

text \<open>The messages that make the hook report a connection.\<close>

definition telemetry_or_pong :: "json \<Rightarrow> bool" where
  "telemetry_or_pong m =
     (property_of m ''type'' = Some (JStr ''telemetry'') \<or> property_of m ''type'' = Some (JStr ''pong''))"

text \<open>
  In the words of the specification: the frames received since the last call of
  \<open>disconnect\<close> in a run.
\<close>

definition frames_since_disconnect :: "chan_event list \<Rightarrow> string list" where
  "frames_since_disconnect es =
     foldl (\<lambda>acc e. case e of Disconnect \<Rightarrow> [] | SockMessage i p \<Rightarrow> acc @ [p] | _ \<Rightarrow> acc) [] es"

subsection \<open>Concrete frames and listeners for the examples\<close>

text \<open>
  Three frames and the values \<^verbatim>\<open>JSON.parse\<close> gives for them. \<open>JSON_parse_frames\<close> is
  \<^verbatim>\<open>JSON.parse\<close> on these three frames and on texts that are not JSON (the examples
  use \<open>''{oops''\<close>); no other text is given to it.
\<close>

definition pong_frame :: string where
  \<open>pong_frame = ''{"type":"pong"}''\<close>

definition pong_message :: json where
  "pong_message = JObj [(''type'', JStr ''pong'')]"

definition telemetry_frame :: string where
  \<open>telemetry_frame = ''{"type":"telemetry","data":{"cpu_usage":42.0,"memory_usage":0.5,"active_jobs":1,"queue_depth":0,"timestamp":1700000000}}''\<close>

definition telemetry_message :: json where
  "telemetry_message =
     JObj [(''type'', JStr ''telemetry''),
           (''data'', JObj [(''cpu_usage'', JNum 42), (''memory_usage'', JNum (1 / 2)),
                            (''active_jobs'', JNum 1), (''queue_depth'', JNum 0),
                            (''timestamp'', JNum 1700000000)])]"

definition JSON_parse_frames :: "string \<Rightarrow> json option" where
  "JSON_parse_frames p =
     (if p = ''null'' then Some JNull
      else if p = pong_frame then Some pong_message
      else if p = telemetry_frame then Some telemetry_message
      else None)"

text \<open>Every listener is the listener of a telemetry hook.\<close>

definition hooks_env :: env where
  "hooks_env = \<lparr> JSON_parse = JSON_parse_frames, listener = hook_listener \<rparr>"

text \<open>Listener 1 unsubscribes listener 2 and itself when called; the others do nothing.\<close>

definition leaving_env :: env where
  "leaving_env = \<lparr> JSON_parse = JSON_parse_frames,
     listener = (\<lambda>l m. if l = 1 then ([Unsubscribe 2, Unsubscribe 1], Normal) else ([], Normal)) \<rparr>"

section \<open>Properties of the job controller\<close>

subsection \<open>Chained polling\<close>



lemma find_timer_SomeD: "find_timer t ts = Some tm \<Longrightarrow> tm \<in> set ts \<and> tid tm = t"
  by (auto simp: find_timer_def find_Some_iff)


























subsection \<open>The submit, poll, poll scenario\<close>

text \<open>
  Claim C6. A fresh controller submits a file; the server answers with a pending job;
  the status request issued at once resolves (after any time \<open>d1\<close>) with status
  processing; once the 1000 ms timer is due it fires and issues the second status
  request, which resolves with status completed and a result. The controller then has
  \<open>isLoading = false\<close>, \<open>error = null\<close>, the result of the completed job, no poll
  timer armed and no request in flight.
\<close>

theorem scenario_completes:
  "\<exists>s. job_run
         [Submit f,
          SubmitResolved 0 \<lparr> job_id = ''abc'', status = pending, submitted_at = a0, result = None \<rparr>,
          Elapse d1,
          StatusResolved 1 \<lparr> job_id = j1, status = processing, submitted_at = a1, result = r1 \<rparr>,
          Elapse (1000 + d2),
          PollTimerFired 1,
          Elapse d3,
          StatusResolved 2 \<lparr> job_id = j2, status = completed, submitted_at = a2, result = Some r \<rparr>]
         controller_init = Some s \<and>
       \<not> isLoading s \<and> error s = None \<and> result_of s = Some r \<and>
       poll_timers s = [] \<and> polls s = [] \<and> submits s = []"
  by (simp add: controller_init_def submit_def submit_resolved_def pollStatus_def
      pollStatus_resolved_def drop_request_def find_timer_def clearTimeout_def
      stopPolling_def result_of_def)

subsection \<open>Cancellation with a status request in flight\<close>

text \<open>
  Claim C1, evaluated where the code departs from it. A job is submitted and its first
  status request is in flight when the consumer calls \<open>reset\<close>. The reset finds no
  timer to cancel and clears the state. When the request then resolves with status
  processing, its continuation stores the job again and arms a new poll timer; 1000 ms
  later that timer fires and the next status request is issued. The same happens when
  the owner unmounts instead of calling \<open>reset\<close>: the poll goes on after the teardown.
\<close>

theorem reset_leaves_inflight_poll:
  "map_option (\<lambda>s. (job s, map callback (poll_timers s), polls s))
     (job_run
        [Submit ''f'',
         SubmitResolved 0 \<lparr> job_id = ''abc'', status = pending, submitted_at = None, result = None \<rparr>,
         Reset]
        (controller_init :: nat controller))
     = Some (None, [], [(1, ''abc'')]) \<and>
   map_option (\<lambda>s. (job s, map callback (poll_timers s), polls s))
     (job_run
        [Submit ''f'',
         SubmitResolved 0 \<lparr> job_id = ''abc'', status = pending, submitted_at = None, result = None \<rparr>,
         Reset,
         StatusResolved 1 \<lparr> job_id = ''abc'', status = processing, submitted_at = None, result = None \<rparr>]
        (controller_init :: nat controller))
     = Some (Some \<lparr> job_id = ''abc'', status = processing, submitted_at = None, result = None \<rparr>,
             [''abc''], []) \<and>
   map_option (\<lambda>s. (job s, map callback (poll_timers s), polls s))
     (job_run
        [Submit ''f'',
         SubmitResolved 0 \<lparr> job_id = ''abc'', status = pending, submitted_at = None, result = None \<rparr>,
         Reset,
         StatusResolved 1 \<lparr> job_id = ''abc'', status = processing, submitted_at = None, result = None \<rparr>,
         Elapse 1000,
         PollTimerFired 1]
        (controller_init :: nat controller))
     = Some (Some \<lparr> job_id = ''abc'', status = processing, submitted_at = None, result = None \<rparr>,
             [], [(2, ''abc'')]) \<and>
   map_option (\<lambda>s. (map callback (poll_timers s), polls s))
     (job_run
        [Submit ''f'',
         SubmitResolved 0 \<lparr> job_id = ''abc'', status = pending, submitted_at = None, result = None \<rparr>,
         Unmount,
         StatusResolved 1 \<lparr> job_id = ''abc'', status = processing, submitted_at = None, result = None \<rparr>,
         Elapse 1000,
         PollTimerFired 1]
        (controller_init :: nat controller))
     = Some ([], [(2, ''abc'')])"
  by (simp add: controller_init_def submit_def submit_resolved_def pollStatus_def
      pollStatus_resolved_def drop_request_def find_timer_def clearTimeout_def
      stopPolling_def reset_def unmount_def)

subsection \<open>A second submission while a job is polled\<close>

text \<open>
  Claim C3, evaluated where the code departs from it. Job \<open>a\<close> is being polled: its
  poll timer is armed. A second file is submitted. \<open>submit\<close> clears the job and the
  error but does not stop polling: the timer of job \<open>a\<close> is still armed after the call,
  and when it fires a further status request for job \<open>a\<close> is issued.
\<close>

theorem submit_keeps_previous_polling:
  "map_option (\<lambda>s. (map callback (poll_timers s), polls s))
     (job_run
        [Submit ''f'',
         SubmitResolved 0 \<lparr> job_id = ''a'', status = pending, submitted_at = None, result = None \<rparr>,
         StatusResolved 1 \<lparr> job_id = ''a'', status = processing, submitted_at = None, result = None \<rparr>,
         Submit ''g'']
        (controller_init :: nat controller))
     = Some ([''a''], []) \<and>
   map_option (\<lambda>s. (map callback (poll_timers s), polls s))
     (job_run
        [Submit ''f'',
         SubmitResolved 0 \<lparr> job_id = ''a'', status = pending, submitted_at = None, result = None \<rparr>,
         StatusResolved 1 \<lparr> job_id = ''a'', status = processing, submitted_at = None, result = None \<rparr>,
         Submit ''g'',
         Elapse 1000,
         PollTimerFired 1]
        (controller_init :: nat controller))
     = Some ([], [(3, ''a'')])"
  by (simp add: controller_init_def submit_def submit_resolved_def pollStatus_def
      pollStatus_resolved_def drop_request_def find_timer_def clearTimeout_def)

section \<open>Properties of the telemetry channel\<close>

subsection \<open>The walk over the listener set\<close>

lemma set_members: "set (members es) = {l. Some l \<in> set es}"
  by (induction es rule: members.induct) auto

lemma members_append: "members (xs @ ys) = members xs @ members ys"
  by (induction xs rule: members.induct) auto

lemma forEach_done: "length entries \<le> i \<Longrightarrow> forEach call m i entries calls = Some (Normal, entries, calls)"
  by (subst forEach.simps) simp

lemma forEach_skip:
  "i < length entries \<Longrightarrow> entries ! i = None \<Longrightarrow>
   forEach call m i entries calls = forEach call m (Suc i) entries calls"
  by (subst forEach.simps) simp

lemma forEach_call_Normal:
  "i < length entries \<Longrightarrow> entries ! i = Some l \<Longrightarrow> call l m = (acts, Normal) \<Longrightarrow>
   forEach call m i entries calls =
     forEach call m (Suc i) (fold perform acts entries) (calls @ [(l, m)])"
  by (subst forEach.simps) simp

lemma forEach_call_Thrown:
  "i < length entries \<Longrightarrow> entries ! i = Some l \<Longrightarrow> call l m = (acts, Thrown) \<Longrightarrow>
   forEach call m i entries calls = Some (Thrown, fold perform acts entries, calls @ [(l, m)])"
  by (subst forEach.simps) simp

lemma forEach_quiet:
  assumes q: "\<forall>l \<in> set (members entries). fst (call l m) = []"
  shows "forEach call m i entries calls =
           Some (outcome call m (members (drop i entries)), entries,
                 calls @ map (\<lambda>l. (l, m)) (reached call m (members (drop i entries))))"
proof (induction "length entries - i" arbitrary: i calls)
  case 0
  then show ?case by (simp add: forEach_done)
next
  case (Suc n)
  then have i: "i < length entries" and n: "n = length entries - Suc i" by simp_all
  have d: "drop i entries = entries ! i # drop (Suc i) entries"
    using i by (simp add: Cons_nth_drop_Suc)
  show ?case
  proof (cases "entries ! i")
    case None
    with i d Suc.hyps(1) [OF n] show ?thesis by (simp add: forEach_skip)
  next
    case (Some l)
    then have "Some l \<in> set entries" using i by (metis nth_mem)
    then have "fst (call l m) = []" using q by (simp add: set_members)
    then obtain c where c: "call l m = ([], c)" by (cases "call l m") simp
    show ?thesis
    proof (cases c)
      case Normal
      with c Some i d Suc.hyps(1) [OF n, of "calls @ [(l, m)]"] show ?thesis
        by (simp add: forEach_call_Normal)
    next
      case Thrown
      with c Some i d show ?thesis by (simp add: forEach_call_Thrown)
    qed
  qed
qed


lemma emptied_refl: "emptied es es"
  by (simp add: emptied_def list_all2_same)

lemma emptied_trans: "emptied xs ys \<Longrightarrow> emptied ys zs \<Longrightarrow> emptied xs zs"
  unfolding emptied_def by (erule (1) list_all2_trans [rotated]) auto

lemma emptied_length: "emptied es es' \<Longrightarrow> length es' = length es"
  by (simp add: emptied_def list_all2_lengthD)

lemma emptied_nth: "emptied es es' \<Longrightarrow> k < length es \<Longrightarrow> es' ! k = None \<or> es' ! k = es ! k"
  unfolding emptied_def by (drule (1) list_all2_nthD) simp

lemma emptied_drop: "emptied es es' \<Longrightarrow> emptied (drop n es) (drop n es')"
  by (simp add: emptied_def list_all2_dropI)

lemma emptied_set_delete: "emptied es (set_delete l es)"
  by (simp add: emptied_def set_delete_def list_all2_map2 list_all2_same)

lemma emptied_unsubscribes: "emptied es (fold perform (map Unsubscribe us) es)"
proof (induction us arbitrary: es)
  case Nil
  show ?case by (simp add: emptied_refl)
next
  case (Cons u us)
  have "emptied es (set_delete u es)" by (rule emptied_set_delete)
  moreover have "emptied (set_delete u es) (fold perform (map Unsubscribe us) (set_delete u es))"
    by (rule Cons.IH)
  ultimately show ?case by (simp add: emptied_trans)
qed

lemma emptied_members_subseq: "emptied es es' \<Longrightarrow> subseq (members es') (members es)"
  unfolding emptied_def
proof (induction es es' rule: list_all2_induct)
  case Nil
  show ?case by simp
next
  case (Cons a es b es')
  then show ?case by (cases a; cases b) auto
qed

lemma emptied_members_subset:
  assumes e: "emptied es es'"
  shows "set (members es') \<subseteq> set (members es)"
proof
  fix l assume l: "l \<in> set (members es')"
  from emptied_members_subseq [OF e] l show "l \<in> set (members es)"
    by (auto dest: list_emb_set)
qed

lemma subseq_distinct: "subseq xs ys \<Longrightarrow> distinct ys \<Longrightarrow> distinct xs"
  using subseqs_distinctD [of xs ys] by simp

lemma forEach_unsubscribing:
  assumes "\<forall>l \<in> set (members entries). \<exists>us. call l m = (map Unsubscribe us, Normal)"
  shows "\<exists>entries' got.
           forEach call m i entries calls = Some (Normal, entries', calls @ map (\<lambda>l. (l, m)) got) \<and>
           emptied entries entries' \<and>
           subseq got (members (drop i entries)) \<and>
           set (members (drop i entries')) \<subseteq> set got"
  using assms
proof (induction "length entries - i" arbitrary: i entries calls)
  case 0
  then show ?case
    by (intro exI [of _ entries] exI [of _ "[]"]) (simp add: forEach_done emptied_refl)
next
  case (Suc n)
  then have i: "i < length entries" by simp
  have d: "drop i entries = entries ! i # drop (Suc i) entries"
    using i by (simp add: Cons_nth_drop_Suc)
  show ?case
  proof (cases "entries ! i")
    case None
    have n: "n = length entries - Suc i" using Suc.hyps(2) by simp
    from Suc.hyps(1) [OF n Suc.prems, of calls] obtain entries' got where
      r: "forEach call m (Suc i) entries calls = Some (Normal, entries', calls @ map (\<lambda>l. (l, m)) got)"
      and e: "emptied entries entries'"
      and s: "subseq got (members (drop (Suc i) entries))"
      and c: "set (members (drop (Suc i) entries')) \<subseteq> set got"
      by blast
    have i': "i < length entries'" using i e by (simp add: emptied_length)
    have "entries' ! i = None" using emptied_nth [OF e i] None by simp
    then have d': "members (drop i entries') = members (drop (Suc i) entries')"
      using i' by (simp add: Cons_nth_drop_Suc [symmetric])
    show ?thesis
      using r e s c None i d d'
      by (intro exI [of _ entries'] exI [of _ got]) (simp add: forEach_skip)
  next
    case (Some l)
    then have "Some l \<in> set entries" using i by (metis nth_mem)
    then obtain us where call: "call l m = (map Unsubscribe us, Normal)"
      using Suc.prems by (auto simp: set_members)
    let ?e1 = "fold perform (map Unsubscribe us) entries"
    have e1: "emptied entries ?e1" by (rule emptied_unsubscribes)
    have n: "n = length ?e1 - Suc i" using Suc.hyps(2) e1 by (simp add: emptied_length)
    have u1: "\<forall>l \<in> set (members ?e1). \<exists>us. call l m = (map Unsubscribe us, Normal)"
      using Suc.prems emptied_members_subset [OF e1] by blast
    from Suc.hyps(1) [OF n u1, of "calls @ [(l, m)]"] obtain entries' got where
      r: "forEach call m (Suc i) ?e1 (calls @ [(l, m)])
            = Some (Normal, entries', (calls @ [(l, m)]) @ map (\<lambda>l. (l, m)) got)"
      and e: "emptied ?e1 entries'"
      and s: "subseq got (members (drop (Suc i) ?e1))"
      and c: "set (members (drop (Suc i) entries')) \<subseteq> set got"
      by blast
    have ee: "emptied entries entries'" using e1 e by (rule emptied_trans)
    have i': "i < length entries'" using i ee by (simp add: emptied_length)
    have s1: "subseq (members (drop (Suc i) ?e1)) (members (drop (Suc i) entries))"
      by (intro emptied_members_subseq emptied_drop e1)
    have s2: "subseq (l # got) (members (drop i entries))"
      using subseq_order.order_trans [OF s s1] d Some by simp
    have "entries' ! i = None \<or> entries' ! i = Some l"
      using emptied_nth [OF ee i] Some by simp
    moreover have "drop i entries' = entries' ! i # drop (Suc i) entries'"
      using i' by (simp add: Cons_nth_drop_Suc)
    ultimately have c2: "set (members (drop i entries')) \<subseteq> set (l # got)"
      using c by auto
    have "forEach call m i entries calls = Some (Normal, entries', calls @ map (\<lambda>l. (l, m)) (l # got))"
      using r i Some call by (simp add: forEach_call_Normal)
    with ee s2 c2 show ?thesis by blast
  qed
qed

subsection \<open>What a dispatch leaves unchanged\<close>

text \<open>
  Whatever the listeners do, a dispatch that ends changes the listener set and the record
  of calls only, and keeps the elements of the set distinct.
\<close>

lemma fold_perform_preserves:
  assumes "Q es" and "\<And>a es. Q es \<Longrightarrow> Q (perform a es)"
  shows "Q (fold perform acts es)"
  using assms(1) by (induction acts arbitrary: es) (simp_all add: assms(2))

lemma forEach_preserves:
  assumes r: "forEach call m i entries calls = Some y"
    and step: "\<And>a es. Q es \<Longrightarrow> Q (perform a es)"
  shows "Q entries \<longrightarrow> Q (fst (snd y))"
proof (rule forEach.raw_induct
    [where P = "\<lambda>call m i entries calls y. Q entries \<longrightarrow> Q (fst (snd y))", OF _ r])
  fix forEach' :: "(nat \<Rightarrow> json \<Rightarrow> action list \<times> completion) \<Rightarrow> json \<Rightarrow> nat \<Rightarrow>
      nat option list \<Rightarrow> (nat \<times> json) list \<Rightarrow>
      (completion \<times> nat option list \<times> (nat \<times> json) list) option"
  fix call m i entries calls y
  assume IH: "\<And>call m i entries calls y.
      forEach' call m i entries calls = Some y \<Longrightarrow> Q entries \<longrightarrow> Q (fst (snd y))"
  assume eq: "(if i < length entries
      then case entries ! i of
           None \<Rightarrow> forEach' call m (Suc i) entries calls
           | Some l \<Rightarrow>
               (case call l m of
                 (acts, Normal) \<Rightarrow>
                   forEach' call m (Suc i) (fold perform acts entries) (calls @ [(l, m)])
               | (acts, Thrown) \<Rightarrow>
                   Some (Thrown, fold perform acts entries, calls @ [(l, m)]))
      else Some (Normal, entries, calls)) = Some y"
  show "Q entries \<longrightarrow> Q (fst (snd y))"
  proof
    assume q: "Q entries"
    show "Q (fst (snd y))"
    proof (cases "i < length entries")
      case False
      with eq q show ?thesis by auto
    next
      case True
      show ?thesis
      proof (cases "entries ! i")
        case None
        with True eq have "forEach' call m (Suc i) entries calls = Some y" by simp
        from IH [OF this] q show ?thesis by simp
      next
        case (Some l)
        obtain acts c where call: "call l m = (acts, c)" by (cases "call l m")
        have q1: "Q (fold perform acts entries)"
          using q step by (rule fold_perform_preserves)
        show ?thesis
        proof (cases c)
          case Normal
          with True Some call eq
          have "forEach' call m (Suc i) (fold perform acts entries) (calls @ [(l, m)]) = Some y"
            by simp
          from IH [OF this] q1 show ?thesis by simp
        next
          case Thrown
          with True Some call eq q1 show ?thesis by auto
        qed
      qed
    qed
  qed
qed

lemma members_set_delete: "members (set_delete l es) = filter (\<lambda>x. x \<noteq> l) (members es)"
  unfolding set_delete_def by (induction es rule: members.induct) auto

lemma distinct_perform: "distinct (members es) \<Longrightarrow> distinct (members (perform a es))"
  by (cases a) (auto simp: set_add_def members_append set_members members_set_delete)

lemma notifyListeners_frame:
  assumes "notifyListeners E m s = Some (c, s')"
  shows "\<exists>ls ds. s' = s\<lparr> listeners := ls, delivered := ds \<rparr> \<and>
           (distinct (members (listeners s)) \<longrightarrow> distinct (members ls))"
proof -
  from assms obtain y where
    r: "forEach (listener E) m 0 (listeners s) (delivered s) = Some y"
    and s': "s' = s\<lparr> listeners := fst (snd y), delivered := snd (snd y) \<rparr>"
    by (auto simp: notifyListeners_def split: option.splits)
  from forEach_preserves [OF r, of "\<lambda>es. distinct (members es)"] s' show ?thesis
    by (auto simp: distinct_perform)
qed

lemma onmessage_frame:
  assumes "onmessage E p s = Some (c, s')"
  shows "c = Normal \<and> (\<exists>ls ds cs. s' = s\<lparr> listeners := ls, delivered := ds, console := cs \<rparr> \<and>
           (distinct (members (listeners s)) \<longrightarrow> distinct (members ls)))"
proof (cases "JSON_parse E p")
  case None
  with assms have "s' = s\<lparr> listeners := listeners s, delivered := delivered s,
      console := console s @ [''Failed to parse WebSocket message''] \<rparr>" and "c = Normal"
    by (auto simp: onmessage_def onmessage_try_def console_log_def)
  then show ?thesis by blast
next
  case (Some m)
  with assms obtain c1 s1 where n: "notifyListeners E m s = Some (c1, s1)"
    and s': "s' = (if c1 = Thrown then console_log ''Failed to parse WebSocket message'' s1 else s1)"
    and c: "c = Normal"
    by (auto simp: onmessage_def onmessage_try_def split: option.splits completion.splits)
  from notifyListeners_frame [OF n] obtain ls ds where
    s1: "s1 = s\<lparr> listeners := ls, delivered := ds \<rparr>"
    and d: "distinct (members (listeners s)) \<longrightarrow> distinct (members ls)" by blast
  have "s' = s\<lparr> listeners := ls, delivered := ds, console := console s' \<rparr>"
    using s' s1 by (simp add: console_log_def)
  with c d show ?thesis by blast
qed


subsection \<open>Reconnection\<close>

text \<open>The timer invariant holds in every state the channel can reach.\<close>

lemma tracked_clear:
  "timers_tracked s \<Longrightarrow> reconnectTimeout s = Some t \<Longrightarrow> clearTimeout t (reconnect_timers s) = []"
  by (auto simp: timers_tracked_def clearTimeout_def filter_empty_conv)

lemma tracked_none:
  "timers_tracked s \<Longrightarrow> reconnectTimeout s = None \<Longrightarrow> reconnect_timers s = []"
  by (cases "reconnect_timers s") (auto simp: timers_tracked_def)

lemma tracked_find:
  "timers_tracked s \<Longrightarrow> find_timer t (reconnect_timers s) = Some tm \<Longrightarrow> reconnectTimeout s = Some t"
  by (auto simp: timers_tracked_def dest: find_timer_SomeD)

lemma tracked_frame:
  "timers_tracked (s\<lparr> sockets := a \<rparr>) = timers_tracked s"
  "timers_tracked (s\<lparr> ws := b \<rparr>) = timers_tracked s"
  "timers_tracked (s\<lparr> isExplicitlyClosed := c \<rparr>) = timers_tracked s"
  "timers_tracked (s\<lparr> listeners := d \<rparr>) = timers_tracked s"
  "timers_tracked (s\<lparr> delivered := e \<rparr>) = timers_tracked s"
  "timers_tracked (s\<lparr> console := f \<rparr>) = timers_tracked s"
  by (simp_all add: timers_tracked_def)

lemma tracked_close: "timers_tracked (close i s) = timers_tracked s"
  by (simp add: close_def tracked_frame)

lemma tracked_console_log: "timers_tracked (console_log m s) = timers_tracked s"
  by (simp add: console_log_def tracked_frame)

lemma tracked_connect: "timers_tracked s \<Longrightarrow> timers_tracked (connect s)"
  by (simp add: connect_def timers_tracked_def)

lemma tracked_emptied:
  "timers_tracked s \<Longrightarrow> timers_tracked (s\<lparr> reconnect_timers := [], reconnectTimeout := h \<rparr>)"
  by (simp add: timers_tracked_def)

lemma tracked_disconnect: "timers_tracked s \<Longrightarrow> timers_tracked (disconnect s)"
proof -
  assume t: "timers_tracked s"
  have 1: "reconnect_timers (disconnect s) = [] \<or> reconnect_timers (disconnect s) = reconnect_timers s"
    using tracked_clear [OF t]
    by (auto simp: disconnect_def Let_def close_def split: option.splits)
  have 2: "reconnectTimeout (disconnect s) = reconnectTimeout s" "wclock (disconnect s) = wclock s"
    by (auto simp: disconnect_def Let_def close_def split: option.splits)
  from 1 2 t show ?thesis by (auto simp: timers_tracked_def)
qed

lemma tracked_onopen: "timers_tracked s \<Longrightarrow> timers_tracked (onopen s)"
proof -
  assume t: "timers_tracked s"
  show ?thesis
  proof (cases "reconnectTimeout s")
    case None
    with t show ?thesis by (simp add: onopen_def Let_def console_log_def tracked_frame)
  next
    case (Some h)
    with tracked_clear [OF t Some] show ?thesis
      by (simp add: onopen_def Let_def console_log_def timers_tracked_def)
  qed
qed

lemma tracked_scheduleReconnect: "timers_tracked s \<Longrightarrow> timers_tracked (scheduleReconnect s)"
proof -
  assume t: "timers_tracked s"
  show ?thesis
  proof (cases "reconnectTimeout s")
    case None
    with tracked_none [OF t None] show ?thesis
      by (simp add: scheduleReconnect_def timers_tracked_def)
  next
    case (Some h)
    with t show ?thesis by (simp add: scheduleReconnect_def)
  qed
qed

lemma tracked_onclose: "timers_tracked s \<Longrightarrow> timers_tracked (onclose s)"
  by (simp add: onclose_def Let_def tracked_scheduleReconnect tracked_console_log)

lemma tracked_onerror: "timers_tracked s \<Longrightarrow> timers_tracked (onerror s)"
  by (simp add: onerror_def Let_def tracked_close tracked_console_log split: option.splits)

lemma tracked_step:
  assumes t: "timers_tracked s" and st: "chan_step E e s = Some s'"
  shows "timers_tracked s'"
proof (cases e)
  case Connect
  with t st show ?thesis by (auto simp: tracked_connect)
next
  case Disconnect
  with t st show ?thesis by (auto simp: tracked_disconnect)
next
  case (SubscribeListener l)
  with t st show ?thesis by (auto simp: subscribe_def tracked_frame)
next
  case (UnsubscribeListener l)
  with t st show ?thesis by (auto simp: unsubscribe_def tracked_frame)
next
  case (SockOpen i)
  with t st show ?thesis
    by (auto simp: tracked_frame intro!: tracked_onopen split: if_splits)
next
  case (SockMessage i p)
  with st obtain c where "onmessage E p s = Some (c, s')" by (auto split: if_splits)
  from onmessage_frame [OF this] t show ?thesis by (auto simp: tracked_frame)
next
  case (SockClosed i w)
  with t st show ?thesis
    by (auto simp: tracked_frame Let_def intro!: tracked_onclose tracked_onerror split: if_splits)
next
  case (ReconnectTimerFired h)
  with st obtain tm where f: "find_timer h (reconnect_timers s) = Some tm"
    and s': "s' = reconnect_callback (s\<lparr> reconnect_timers := clearTimeout h (reconnect_timers s) \<rparr>)"
    by (auto split: option.splits if_splits)
  have "clearTimeout h (reconnect_timers s) = []"
    using tracked_clear [OF t tracked_find [OF t f]] .
  with s' have eq: "s' = connect ((console_log ''Reconnecting WebSocket...''
      (s\<lparr> reconnect_timers := [] \<rparr>))\<lparr> reconnectTimeout := None \<rparr>)"
    by (simp add: reconnect_callback_def)
  have "timers_tracked ((console_log ''Reconnecting WebSocket...''
      (s\<lparr> reconnect_timers := [] \<rparr>))\<lparr> reconnectTimeout := None \<rparr>)"
    by (simp add: console_log_def timers_tracked_def)
  then show ?thesis unfolding eq by (rule tracked_connect)
next
  case (Wait d)
  with t st show ?thesis by (fastforce simp: timers_tracked_def intro: trans_le_add1)
qed

lemma tracked_run:
  "timers_tracked s \<Longrightarrow> chan_run E es s = Some s' \<Longrightarrow> timers_tracked s'"
  by (induction es arbitrary: s) (auto split: option.splits dest: tracked_step)

lemma tracked_init: "timers_tracked channel_init"
  by (simp add: timers_tracked_def channel_init_def)


text \<open>After \<open>disconnect\<close>, reconnection stays suppressed until \<open>connect\<close> is called.\<close>

lemma suppressed_frame:
  "suppressed (s\<lparr> sockets := a \<rparr>) = suppressed s"
  "suppressed (s\<lparr> listeners := d \<rparr>) = suppressed s"
  "suppressed (s\<lparr> delivered := e \<rparr>) = suppressed s"
  "suppressed (s\<lparr> console := f \<rparr>) = suppressed s"
  "suppressed (s\<lparr> wclock := g \<rparr>) = suppressed s"
  by (simp_all add: suppressed_def)

lemma suppressed_disconnect: "timers_tracked s \<Longrightarrow> suppressed (disconnect s)"
proof -
  assume t: "timers_tracked s"
  show ?thesis
  proof (cases "reconnectTimeout s")
    case None
    with tracked_none [OF t None] show ?thesis
      by (auto simp: suppressed_def disconnect_def Let_def close_def split: option.splits)
  next
    case (Some h)
    with tracked_clear [OF t Some] show ?thesis
      by (auto simp: suppressed_def disconnect_def Let_def close_def split: option.splits)
  qed
qed

lemma disconnect_sockets: "length (sockets (disconnect s)) = length (sockets s)"
  by (auto simp: disconnect_def Let_def close_def split: option.splits)

lemma suppressed_step:
  assumes sp: "suppressed s" and st: "chan_step E e s = Some s'" and e: "e \<noteq> Connect"
  shows "suppressed s' \<and> length (sockets s') = length (sockets s)"
proof (cases e)
  case Connect
  with e show ?thesis by simp
next
  case Disconnect
  with sp st show ?thesis
    by (auto simp: suppressed_def disconnect_def Let_def clearTimeout_def split: option.splits)
next
  case (SubscribeListener l)
  with sp st show ?thesis by (auto simp: subscribe_def suppressed_frame)
next
  case (UnsubscribeListener l)
  with sp st show ?thesis by (auto simp: unsubscribe_def suppressed_frame)
next
  case (SockOpen i)
  with sp st show ?thesis
    by (auto simp: suppressed_def onopen_def Let_def console_log_def clearTimeout_def
        split: if_splits option.splits)
next
  case (SockMessage i p)
  with st obtain c where "onmessage E p s = Some (c, s')" by (auto split: if_splits)
  from onmessage_frame [OF this] sp show ?thesis by (auto simp: suppressed_frame)
next
  case (SockClosed i w)
  with sp st show ?thesis
    by (auto simp: suppressed_def onclose_def onerror_def Let_def console_log_def
        split: if_splits)
next
  case (ReconnectTimerFired h)
  with sp st show ?thesis by (simp add: suppressed_def find_timer_def)
next
  case (Wait d)
  with sp st show ?thesis by (auto simp: suppressed_frame)
qed

lemma suppressed_run:
  "suppressed s \<Longrightarrow> chan_run E es s = Some s' \<Longrightarrow> Connect \<notin> set es \<Longrightarrow>
   suppressed s' \<and> length (sockets s') = length (sockets s)"
proof (induction es arbitrary: s)
  case Nil
  then show ?case by simp
next
  case (Cons e es)
  from Cons.prems(2) obtain s1 where s1: "chan_step E e s = Some s1"
    and r: "chan_run E es s1 = Some s'" by (auto split: option.splits)
  from Cons.prems(3) have e: "e \<noteq> Connect" and es: "Connect \<notin> set es" by auto
  from suppressed_step [OF Cons.prems(1) s1 e] Cons.IH [OF _ r es] show ?case by simp
qed

text \<open>Without \<open>disconnect\<close>, a stored handle always belongs to an armed timer.\<close>

lemma live_frame:
  "handle_live (s\<lparr> sockets := a \<rparr>) = handle_live s"
  "handle_live (s\<lparr> ws := b \<rparr>) = handle_live s"
  "handle_live (s\<lparr> listeners := d \<rparr>) = handle_live s"
  "handle_live (s\<lparr> delivered := e \<rparr>) = handle_live s"
  "handle_live (s\<lparr> console := f \<rparr>) = handle_live s"
  "handle_live (s\<lparr> wclock := g \<rparr>) = handle_live s"
  by (simp_all add: handle_live_def)

lemma live_close: "handle_live (close i s) = handle_live s"
  by (simp add: close_def live_frame)

lemma live_connect: "handle_live s \<Longrightarrow> handle_live (connect s)"
  by (simp add: connect_def handle_live_def)

lemma live_onclose: "handle_live s \<Longrightarrow> handle_live (onclose s)"
  by (auto simp: onclose_def Let_def console_log_def scheduleReconnect_def handle_live_def
      split: option.splits)

lemma live_onerror: "handle_live (onerror s) = handle_live s"
  by (simp add: onerror_def Let_def console_log_def live_frame live_close split: option.splits)

lemma live_onopen: "handle_live s \<Longrightarrow> handle_live (onopen s)"
  by (auto simp: onopen_def Let_def console_log_def handle_live_def split: option.splits)

lemma live_step:
  assumes lv: "handle_live s" and st: "chan_step E e s = Some s'" and e: "e \<noteq> Disconnect"
  shows "handle_live s'"
proof (cases e)
  case Connect
  with lv st show ?thesis by (auto simp: live_connect)
next
  case Disconnect
  with e show ?thesis by simp
next
  case (SubscribeListener l)
  with lv st show ?thesis by (auto simp: subscribe_def live_frame)
next
  case (UnsubscribeListener l)
  with lv st show ?thesis by (auto simp: unsubscribe_def live_frame)
next
  case (SockOpen i)
  with lv st show ?thesis by (auto simp: live_frame intro!: live_onopen split: if_splits)
next
  case (SockMessage i p)
  with st obtain c where "onmessage E p s = Some (c, s')" by (auto split: if_splits)
  from onmessage_frame [OF this] lv show ?thesis by (auto simp: live_frame)
next
  case (SockClosed i w)
  with lv st show ?thesis
    by (auto simp: live_frame live_onerror Let_def intro!: live_onclose split: if_splits)
next
  case (ReconnectTimerFired h)
  with st obtain tm where
    s': "s' = reconnect_callback (s\<lparr> reconnect_timers := clearTimeout h (reconnect_timers s) \<rparr>)"
    by (auto split: option.splits if_splits)
  have "handle_live ((console_log ''Reconnecting WebSocket...''
      (s\<lparr> reconnect_timers := clearTimeout h (reconnect_timers s) \<rparr>))\<lparr> reconnectTimeout := None \<rparr>)"
    using lv by (simp add: console_log_def handle_live_def)
  then show ?thesis unfolding s' reconnect_callback_def by (rule live_connect)
next
  case (Wait d)
  with lv st show ?thesis by (auto simp: live_frame)
qed

lemma live_run:
  "handle_live s \<Longrightarrow> chan_run E es s = Some s' \<Longrightarrow> Disconnect \<notin> set es \<Longrightarrow> handle_live s'"
proof (induction es arbitrary: s)
  case Nil
  then show ?case by simp
next
  case (Cons e es)
  from Cons.prems(2) obtain s1 where s1: "chan_step E e s = Some s1"
    and r: "chan_run E es s1 = Some s'" by (auto split: option.splits)
  from Cons.prems(3) have e: "e \<noteq> Disconnect" and es: "Disconnect \<notin> set es" by auto
  from live_step [OF Cons.prems(1) s1 e] Cons.IH [OF _ r es] show ?case by simp
qed

lemma live_init: "handle_live channel_init"
  by (simp add: handle_live_def channel_init_def)

lemma scheduleReconnect_arms:
  assumes t: "timers_tracked s" and lv: "handle_live s"
  shows "\<exists>tm. reconnect_timers (scheduleReconnect s) = [tm] \<and> delay tm = 3000 \<and>
           reconnectTimeout (scheduleReconnect s) = Some (tid tm)"
proof (cases "reconnectTimeout s")
  case None
  with tracked_none [OF t None] show ?thesis by (simp add: scheduleReconnect_def)
next
  case (Some h)
  with lv obtain tm where tm: "tm \<in> set (reconnect_timers s)" "tid tm = h"
    by (auto simp: handle_live_def)
  with t have "reconnect_timers s = [tm]"
    by (cases "reconnect_timers s") (auto simp: timers_tracked_def)
  with t Some tm show ?thesis by (simp add: scheduleReconnect_def timers_tracked_def)
qed

lemma unexpected_close_arms:
  assumes t: "timers_tracked s" and lv: "handle_live s"
    and st: "chan_step E (SockClosed i w) s = Some s'"
  shows "\<exists>tm. reconnect_timers s' = [tm] \<and> delay tm = 3000 \<and> reconnectTimeout s' = Some (tid tm)"
proof -
  let ?s1 = "s\<lparr> sockets := (sockets s)[i := CLOSED] \<rparr>"
  let ?s2 = "console_log ''WebSocket disconnected'' (if w then onerror ?s1 else ?s1)"
  have t2: "timers_tracked ?s2"
    using t by (simp add: tracked_console_log tracked_onerror tracked_frame)
  have l2: "handle_live ?s2"
    using lv by (simp add: console_log_def live_frame live_onerror)
  have "\<not> isExplicitlyClosed ?s2" using l2 by (simp add: handle_live_def)
  with st have "s' = scheduleReconnect ?s2"
    by (auto simp: onclose_def Let_def split: if_splits)
  with scheduleReconnect_arms [OF t2 l2] show ?thesis by simp
qed

text \<open>
  Claim C5. Take any state the channel can reach and call \<open>disconnect\<close>. The pending
  reconnect timer, if any, is cancelled by the call. Whatever happens next, as long as
  \<open>connect\<close> is not called again (sockets closing or failing, frames, subscriptions,
  time passing): the explicitly-closed flag stays set, no reconnect timer is armed, no
  timer callback can run, and no socket is created; a call of \<open>connect\<close> then clears
  the flag. And \<open>disconnect\<close> is the only way
  to suppress reconnection: in a state reached without any call of \<open>disconnect\<close> the
  flag is clear, and every close of a socket leaves exactly one reconnect timer armed,
  with a delay of 3000 ms.
\<close>

theorem disconnect_suppresses_reconnect:
  assumes reach: "chan_run E es0 channel_init = Some s"
    and quiet: "Connect \<notin> set es"
    and after: "chan_run E es (disconnect s) = Some s'"
  shows "reconnect_timers (disconnect s) = [] \<and>
         isExplicitlyClosed s' \<and> reconnect_timers s' = [] \<and>
         length (sockets s') = length (sockets s) \<and>
         (\<forall>t. chan_step E (ReconnectTimerFired t) s' = None) \<and>
         \<not> isExplicitlyClosed (connect s') \<and>
         (Disconnect \<notin> set es0 \<longrightarrow>
            \<not> isExplicitlyClosed s \<and>
            (\<forall>i w s2. chan_step E (SockClosed i w) s = Some s2 \<longrightarrow>
               (\<exists>tm. reconnect_timers s2 = [tm] \<and> delay tm = 3000 \<and>
                     reconnectTimeout s2 = Some (tid tm))))"
proof -
  have t: "timers_tracked s" using tracked_init reach by (rule tracked_run)
  have d: "suppressed (disconnect s)" using t by (rule suppressed_disconnect)
  from suppressed_run [OF d after quiet]
  have s': "suppressed s'" and n: "length (sockets s') = length (sockets s)"
    by (simp_all add: disconnect_sockets)
  have fire: "\<forall>t. chan_step E (ReconnectTimerFired t) s' = None"
    using s' by (simp add: suppressed_def find_timer_def)
  have only: "Disconnect \<notin> set es0 \<longrightarrow>
            \<not> isExplicitlyClosed s \<and>
            (\<forall>i w s2. chan_step E (SockClosed i w) s = Some s2 \<longrightarrow>
               (\<exists>tm. reconnect_timers s2 = [tm] \<and> delay tm = 3000 \<and>
                     reconnectTimeout s2 = Some (tid tm)))"
  proof
    assume "Disconnect \<notin> set es0"
    with live_init reach have lv: "handle_live s" by (rule live_run)
    then have "\<not> isExplicitlyClosed s" by (simp add: handle_live_def)
    with unexpected_close_arms [OF t lv] show "\<not> isExplicitlyClosed s \<and>
            (\<forall>i w s2. chan_step E (SockClosed i w) s = Some s2 \<longrightarrow>
               (\<exists>tm. reconnect_timers s2 = [tm] \<and> delay tm = 3000 \<and>
                     reconnectTimeout s2 = Some (tid tm)))" by blast
  qed
  have again: "\<not> isExplicitlyClosed (connect s')"
    using s' by (simp add: suppressed_def connect_def)
  from d s' n fire again only show ?thesis by (simp add: suppressed_def)
qed


theorem disconnect_suppresses_reconnect_witness:
  "\<exists>s s' s2 tm.
     chan_run hooks_env [Connect, SockOpen 0] channel_init = Some s \<and>
     chan_run hooks_env [SockClosed 0 False, Wait 5000] (disconnect s) = Some s' \<and>
     isExplicitlyClosed s' \<and> reconnect_timers s' = [] \<and> length (sockets s') = 1 \<and>
     chan_step hooks_env (ReconnectTimerFired 1) s' = None \<and>
     chan_step hooks_env (SockClosed 0 True) s = Some s2 \<and>
     reconnect_timers s2 = [tm] \<and> delay tm = 3000"
proof -
  let ?s = "channel_init\<lparr> ws := Some 0, sockets := [OPEN], console := [''WebSocket connected''] \<rparr>"
  let ?s' = "channel_init\<lparr> sockets := [CLOSED], isExplicitlyClosed := True,
      console := [''WebSocket connected'', ''WebSocket disconnected''], wclock := 5000 \<rparr>"
  have r: "chan_run hooks_env [Connect, SockOpen 0] channel_init = Some ?s"
    by (simp add: channel_init_def connect_def onopen_def console_log_def)
  have a: "chan_run hooks_env [SockClosed 0 False, Wait 5000] (disconnect ?s) = Some ?s'"
    by (simp add: channel_init_def disconnect_def close_def readyState_of_def Let_def
        onclose_def console_log_def)
  obtain s2 where c: "chan_step hooks_env (SockClosed 0 True) ?s = Some s2"
    by (simp add: channel_init_def)
  have q: "Connect \<notin> set [SockClosed 0 False, Wait 5000]" by simp
  have nd: "Disconnect \<notin> set [Connect, SockOpen 0]" by simp
  from disconnect_suppresses_reconnect [OF r q a] nd c
  obtain tm where "reconnect_timers s2 = [tm]" "delay tm = 3000"
    and "chan_step hooks_env (ReconnectTimerFired 1) ?s' = None" by blast
  with r a c show ?thesis
    by (intro exI [of _ ?s] exI [of _ ?s'] exI [of _ s2] exI [of _ tm])
       (simp add: channel_init_def)
qed

text \<open>
  Claim C2, evaluated where the code departs from it. A connection opens and then drops:
  one reconnect timer is armed, with 3000 ms. Before it fires the consumer calls
  \<open>disconnect\<close>, which cancels the timer but keeps its handle in
  \<open>reconnectTimeout\<close>, and then \<open>connect\<close>, which clears the flag and opens a new
  socket. That socket fails before it opens (error, then close): the close is unexpected,
  but \<open>scheduleReconnect\<close> finds the stale handle and returns, so no reconnect
  timer is armed. The open handler and the timer callback both reset the handle to
  \<^verbatim>\<open>null\<close>; \<open>disconnect\<close> does not.
\<close>

theorem stale_handle_blocks_reconnect:
  "map_option (\<lambda>s. (isExplicitlyClosed s, reconnectTimeout s, map delay (reconnect_timers s)))
     (chan_run E [Connect, SockOpen 0, SockClosed 0 False] channel_init)
     = Some (False, Some 1, [3000]) \<and>
   map_option (\<lambda>s. (isExplicitlyClosed s, reconnectTimeout s, map delay (reconnect_timers s)))
     (chan_run E [Connect, SockOpen 0, SockClosed 0 False, Disconnect] channel_init)
     = Some (True, Some 1, []) \<and>
   map_option (\<lambda>s. (isExplicitlyClosed s, reconnectTimeout s, map delay (reconnect_timers s), sockets s))
     (chan_run E [Connect, SockOpen 0, SockClosed 0 False, Disconnect, Connect, SockClosed 1 True]
        channel_init)
     = Some (False, Some 1, [], [CLOSED, CLOSED])"
  by (simp add: channel_init_def connect_def onopen_def onclose_def onerror_def disconnect_def
      close_def readyState_of_def console_log_def scheduleReconnect_def clearTimeout_def Let_def)

subsection \<open>Dispatch to the listeners\<close>

text \<open>The listener set of a reachable state has no element twice.\<close>

lemma listeners_frame:
  "listeners (connect s) = listeners s"
  "listeners (disconnect s) = listeners s"
  "listeners (onopen s) = listeners s"
  "listeners (onclose s) = listeners s"
  "listeners (onerror s) = listeners s"
  "listeners (reconnect_callback s) = listeners s"
  by (auto simp: connect_def disconnect_def onopen_def onclose_def onerror_def
      reconnect_callback_def scheduleReconnect_def close_def console_log_def Let_def
      split: option.splits)

lemma distinct_step:
  assumes d: "distinct (members (listeners s))" and st: "chan_step E e s = Some s'"
  shows "distinct (members (listeners s'))"
proof (cases e)
  case (SubscribeListener l)
  with st d distinct_perform [of "listeners s" "Subscribe l"] show ?thesis
    by (auto simp: subscribe_def)
next
  case (UnsubscribeListener l)
  with st d distinct_perform [of "listeners s" "Unsubscribe l"] show ?thesis
    by (auto simp: unsubscribe_def)
next
  case (SockMessage i p)
  with st obtain c where "onmessage E p s = Some (c, s')" by (auto split: if_splits)
  from onmessage_frame [OF this] d show ?thesis by auto
qed (use d st in \<open>auto simp: listeners_frame Let_def split: if_splits option.splits\<close>)

lemma distinct_run:
  "distinct (members (listeners s)) \<Longrightarrow> chan_run E es s = Some s' \<Longrightarrow>
   distinct (members (listeners s'))"
  by (induction es arbitrary: s) (auto split: option.splits dest: distinct_step)

text \<open>
  Claim C7. In any state the channel can reach, dispatch a message on which the subscribed
  listeners do nothing to the channel but unsubscribe listeners (themselves or others, any
  number of them). The dispatch ends without throwing; every listener that is still
  subscribed when it ends was called with the message, exactly once; only listeners
  subscribed at the start were called; and the listener set afterwards is the set before
  with some entries emptied, nothing else.
\<close>

theorem unsubscribe_during_dispatch:
  assumes reach: "chan_run E es channel_init = Some s"
    and unsub: "\<forall>l \<in> set (members (listeners s)). \<exists>us. listener E l m = (map Unsubscribe us, Normal)"
  shows "\<exists>s' got.
           notifyListeners E m s = Some (Normal, s') \<and>
           delivered s' = delivered s @ map (\<lambda>l. (l, m)) got \<and>
           distinct got \<and>
           set got \<subseteq> set (members (listeners s)) \<and>
           set (members (listeners s')) \<subseteq> set got \<and>
           emptied (listeners s) (listeners s')"
proof -
  have d: "distinct (members (listeners s))"
    using _ reach by (rule distinct_run) (simp add: channel_init_def)
  from forEach_unsubscribing
         [where call = "listener E" and m = m and entries = "listeners s" and i = 0
            and calls = "delivered s", OF unsub]
  obtain entries' got where
    r: "forEach (listener E) m 0 (listeners s) (delivered s)
          = Some (Normal, entries', delivered s @ map (\<lambda>l. (l, m)) got)"
    and e: "emptied (listeners s) entries'"
    and s: "subseq got (members (drop 0 (listeners s)))"
    and c: "set (members (drop 0 entries')) \<subseteq> set got"
    by blast
  have "distinct got" using s d by (simp add: subseq_distinct)
  moreover have "set got \<subseteq> set (members (listeners s))"
    using s by (auto dest: list_emb_set)
  moreover have "notifyListeners E m s
      = Some (Normal, s\<lparr> listeners := entries', delivered := delivered s @ map (\<lambda>l. (l, m)) got \<rparr>)"
    using r by (simp add: notifyListeners_def)
  ultimately show ?thesis using c e by auto
qed

theorem unsubscribe_during_dispatch_witness:
  "\<exists>s s'. chan_run leaving_env [SubscribeListener 1, SubscribeListener 2, SubscribeListener 3]
              channel_init = Some s \<and>
     notifyListeners leaving_env JNull s = Some (Normal, s') \<and>
     members (listeners s) = [1, 2, 3] \<and>
     members (listeners s') = [3] \<and>
     delivered s' = [(1, JNull), (3, JNull)]"
proof -
  let ?s = "channel_init\<lparr> listeners := [Some 1, Some 2, Some 3] \<rparr>"
  have r: "chan_run leaving_env [SubscribeListener 1, SubscribeListener 2, SubscribeListener 3]
             channel_init = Some ?s"
    by (simp add: channel_init_def subscribe_def set_add_def)
  have u: "\<forall>l \<in> set (members (listeners ?s)).
             \<exists>us. listener leaving_env l JNull = (map Unsubscribe us, Normal)"
  proof
    fix l
    have "listener leaving_env l JNull = (map Unsubscribe (if l = 1 then [2, 1] else []), Normal)"
      by (simp add: leaving_env_def)
    then show "\<exists>us. listener leaving_env l JNull = (map Unsubscribe us, Normal)" ..
  qed
  have n: "notifyListeners leaving_env JNull ?s
     = Some (Normal, ?s\<lparr> listeners := [None, None, Some 3], delivered := [(1, JNull), (3, JNull)] \<rparr>)"
    by (simp add: notifyListeners_def leaving_env_def channel_init_def forEach_done forEach_skip
        forEach_call_Normal [where acts = "[Unsubscribe 2, Unsubscribe 1]"]
        forEach_call_Normal [where acts = "[]"] set_delete_def)
  from unsubscribe_during_dispatch [OF r u] r n show ?thesis
    by (simp add: channel_init_def)
qed

subsection \<open>Frames that do not parse\<close>

lemma notifyListeners_console:
  "notifyListeners E m (s\<lparr> console := c \<rparr>)
     = map_option (\<lambda>(k, x). (k, x\<lparr> console := c \<rparr>)) (notifyListeners E m s)"
  by (simp add: notifyListeners_def split: option.splits prod.splits)

lemma onmessage_console:
  "map_option (\<lambda>(k, x). (k, x\<lparr> console := [] \<rparr>)) (onmessage E p (s\<lparr> console := c \<rparr>))
     = map_option (\<lambda>(k, x). (k, x\<lparr> console := [] \<rparr>)) (onmessage E p s)"
  by (auto simp: onmessage_def onmessage_try_def notifyListeners_console console_log_def
      split: option.splits completion.splits)

text \<open>
  Claim C8. A frame whose payload does not parse is logged and dropped. The handler
  returns normally, and the state after it is the state before it with one more line on
  the console: no listener was called, the sockets, the current socket, the listener set
  and the reconnect timer are as they were. As an event of an open socket it is always
  possible. Every later frame is handled exactly as it would have been without the
  malformed one, the console apart.
\<close>

theorem malformed_frame_dropped:
  assumes "JSON_parse E payload = None"
  shows "onmessage E payload s
           = Some (Normal, s\<lparr> console := console s @ [''Failed to parse WebSocket message''] \<rparr>) \<and>
         (i < length (sockets s) \<and> sockets s ! i = OPEN \<longrightarrow>
            chan_step E (SockMessage i payload) s
              = Some (s\<lparr> console := console s @ [''Failed to parse WebSocket message''] \<rparr>)) \<and>
         (\<forall>later.
            map_option (\<lambda>(k, x). (k, x\<lparr> console := [] \<rparr>))
              (onmessage E later (s\<lparr> console := console s @ [''Failed to parse WebSocket message''] \<rparr>))
            = map_option (\<lambda>(k, x). (k, x\<lparr> console := [] \<rparr>)) (onmessage E later s))"
  using assms
  by (simp add: onmessage_def [of E payload] onmessage_try_def [of E payload] console_log_def
      onmessage_console)

theorem malformed_frame_dropped_witness:
  "\<exists>s s'. chan_run hooks_env [Connect, SubscribeListener 1, SockOpen 0] channel_init = Some s \<and>
     chan_step hooks_env (SockMessage 0 ''{oops'') s = Some s' \<and>
     delivered s' = [] \<and> sockets s' = [OPEN] \<and> ws s' = Some 0 \<and> listeners s' = [Some 1] \<and>
     console s' = [''WebSocket connected'', ''Failed to parse WebSocket message'']"
proof -
  let ?s = "channel_init\<lparr> ws := Some 0, sockets := [OPEN], listeners := [Some 1],
      console := [''WebSocket connected''] \<rparr>"
  have r: "chan_run hooks_env [Connect, SubscribeListener 1, SockOpen 0] channel_init = Some ?s"
    by (simp add: channel_init_def connect_def subscribe_def set_add_def onopen_def console_log_def)
  have p: "JSON_parse hooks_env ''{oops'' = None"
    by (simp add: hooks_env_def JSON_parse_frames_def pong_frame_def telemetry_frame_def)
  from malformed_frame_dropped [OF p, where i = 0 and s = ?s] r show ?thesis
    by (simp add: channel_init_def)
qed

subsection \<open>The parsed payload reaches the listeners unchanged\<close>

lemma reached_all:
  "\<forall>l \<in> set ls. snd (call l m) = Normal \<Longrightarrow> reached call m ls = ls \<and> outcome call m ls = Normal"
  by (induction ls) auto

lemma notifyListeners_quiet:
  assumes "\<forall>l \<in> set (members (listeners s)). fst (listener E l m) = []"
  shows "notifyListeners E m s
           = Some (outcome (listener E) m (members (listeners s)),
                   s\<lparr> delivered := delivered s @
                        map (\<lambda>l. (l, m)) (reached (listener E) m (members (listeners s))) \<rparr>)"
  using forEach_quiet [where call = "listener E" and m = m and entries = "listeners s"
      and i = 0 and calls = "delivered s", OF assms]
  by (simp add: notifyListeners_def)

text \<open>
  Claim C10, as stated, fails: two telemetry hooks are subscribed and the frame
  \<^verbatim>\<open>null\<close> arrives on the open socket. It parses; the first hook's listener is called
  with it and throws on reading \<^verbatim>\<open>message.type\<close>; the exception ends the walk, so the
  second listener, still subscribed, is never called.
\<close>

theorem null_payload_stops_at_first_hook:
  "map_option (\<lambda>s. (members (listeners s), delivered s, sockets s))
     (chan_run hooks_env
        [Connect, SubscribeListener 1, SubscribeListener 2, SockOpen 0, SockMessage 0 ''null'']
        channel_init)
     = Some ([1, 2], [(1, JNull)], [OPEN])"
  by (simp add: channel_init_def connect_def subscribe_def set_add_def onopen_def console_log_def
      onmessage_def onmessage_try_def hooks_env_def JSON_parse_frames_def notifyListeners_def
      forEach_call_Thrown [where acts = "[]"] hook_listener_def useWebSocket_listener_def)

text \<open>
  Claim C10, amended. The channel does not validate or filter: whatever value the payload
  parses to, the handler passes that value unchanged to the subscribed listeners in
  insertion order, up to and including the first listener that throws (for a dispatch
  during which no listener changes the subscriptions). So when no listener throws, every
  subscribed listener receives it. The handler itself always returns normally. Telling
  message types apart is left to the subscribers: the hook's listener leaves its state
  alone on any message that is neither telemetry nor pong.
\<close>

theorem parsed_payload_fanout:
  assumes "JSON_parse E p = Some m"
    and "\<forall>l \<in> set (members (listeners s)). fst (listener E l m) = []"
  shows "\<exists>s'. onmessage E p s = Some (Normal, s') \<and>
           listeners s' = listeners s \<and>
           delivered s' = delivered s @
              map (\<lambda>l. (l, m)) (reached (listener E) m (members (listeners s))) \<and>
           ((\<forall>l \<in> set (members (listeners s)). snd (listener E l m) = Normal) \<longrightarrow>
              delivered s' = delivered s @ map (\<lambda>l. (l, m)) (members (listeners s))) \<and>
           (\<not> telemetry_or_pong m \<longrightarrow> snd (useWebSocket_listener m h) = h)"
proof -
  let ?s1 = "s\<lparr> delivered := delivered s @
      map (\<lambda>l. (l, m)) (reached (listener E) m (members (listeners s))) \<rparr>"
  let ?s' = "if outcome (listener E) m (members (listeners s)) = Thrown
             then console_log ''Failed to parse WebSocket message'' ?s1 else ?s1"
  have "onmessage E p s = Some (Normal, ?s')"
    using assms(1) notifyListeners_quiet [OF assms(2)]
    by (simp add: onmessage_def onmessage_try_def split: completion.splits)
  moreover have "listeners ?s' = listeners s" by (simp add: console_log_def)
  moreover have "delivered ?s' = delivered s @
      map (\<lambda>l. (l, m)) (reached (listener E) m (members (listeners s)))"
    by (simp add: console_log_def)
  moreover have "(\<forall>l \<in> set (members (listeners s)). snd (listener E l m) = Normal) \<longrightarrow>
      delivered ?s' = delivered s @ map (\<lambda>l. (l, m)) (members (listeners s))"
    using reached_all [where call = "listener E" and m = m and ls = "members (listeners s)"]
    by (simp add: console_log_def)
  moreover have "\<not> telemetry_or_pong m \<longrightarrow> snd (useWebSocket_listener m h) = h"
    by (simp add: telemetry_or_pong_def useWebSocket_listener_def)
  ultimately show ?thesis by blast
qed

theorem parsed_payload_fanout_witness:
  "\<exists>s s'. chan_run hooks_env [Connect, SubscribeListener 1, SubscribeListener 2, SockOpen 0]
             channel_init = Some s \<and>
     onmessage hooks_env pong_frame s = Some (Normal, s') \<and>
     members (listeners s') = [1, 2] \<and>
     delivered s' = [(1, pong_message), (2, pong_message)]"
proof -
  let ?s = "channel_init\<lparr> ws := Some 0, sockets := [OPEN], listeners := [Some 1, Some 2],
      console := [''WebSocket connected''] \<rparr>"
  have r: "chan_run hooks_env [Connect, SubscribeListener 1, SubscribeListener 2, SockOpen 0]
             channel_init = Some ?s"
    by (simp add: channel_init_def connect_def subscribe_def set_add_def onopen_def console_log_def)
  have p: "JSON_parse hooks_env pong_frame = Some pong_message"
    by (simp add: hooks_env_def JSON_parse_frames_def pong_frame_def)
  have q: "\<forall>l \<in> set (members (listeners ?s)). fst (listener hooks_env l pong_message) = []"
    by (simp add: hooks_env_def hook_listener_def)
  have n: "\<forall>l \<in> set (members (listeners ?s)). snd (listener hooks_env l pong_message) = Normal"
    by (simp add: hooks_env_def hook_listener_def useWebSocket_listener_def pong_message_def)
  from parsed_payload_fanout [OF p q] n
  obtain s' where "onmessage hooks_env pong_frame ?s = Some (Normal, s')"
    and "listeners s' = listeners ?s"
    and "delivered s' = delivered ?s @ map (\<lambda>l. (l, pong_message)) (members (listeners ?s))"
    by blast
  with r show ?thesis
    by (intro exI [of _ ?s] exI [of _ s']) (simp add: channel_init_def)
qed

section \<open>Properties of the telemetry hook\<close>

lemma fold_isConnected:
  "isConnected (fold (\<lambda>m h. snd (useWebSocket_listener m h)) ms h)
     = (isConnected h \<or> (\<exists>m \<in> set ms. telemetry_or_pong m))"
  by (induction ms arbitrary: h) (auto simp: useWebSocket_listener_def telemetry_or_pong_def)

text \<open>
  Claim C9, as stated, fails: a hook is mounted, the socket opens, a pong frame arrives
  and then the consumer calls \<open>disconnect\<close>. No frame has been received since that
  disconnect, and the hook still reports \<open>isConnected = true\<close>.
\<close>

theorem isConnected_after_disconnect:
  "map_option (\<lambda>s. (isConnected (useWebSocket 1 s), isExplicitlyClosed s, ws s))
     (chan_run hooks_env (mount 1 @ [SockOpen 0, SockMessage 0 pong_frame, Disconnect]) channel_init)
     = Some (True, True, None) \<and>
   frames_since_disconnect (mount 1 @ [SockOpen 0, SockMessage 0 pong_frame, Disconnect]) = []"
  by (simp add: frames_since_disconnect_def mount_def channel_init_def connect_def subscribe_def
      set_add_def onopen_def console_log_def onmessage_def onmessage_try_def hooks_env_def
      JSON_parse_frames_def pong_frame_def pong_message_def notifyListeners_def
      forEach_done forEach_call_Normal [where acts = "[]"] hook_listener_def
      useWebSocket_listener_def hook_init_def disconnect_def close_def readyState_of_def Let_def
      useWebSocket_def received_def)

text \<open>
  Claim C9, amended. The \<open>isConnected\<close> value of a hook is true exactly when its
  listener has received at least one telemetry or pong message since the hook was
  mounted; nothing resets it, and a call of \<open>disconnect\<close> leaves the hook's state as
  it is. When a frame that parses to a telemetry message arrives and the listeners are
  hooks, the handler calls every subscribed listener with the parsed value before it
  returns, and \<open>isConnected\<close> is true for each of them afterwards.
\<close>

theorem hook_connected_iff:
  "isConnected (useWebSocket l s) = (\<exists>m \<in> set (received l s). telemetry_or_pong m) \<and>
   useWebSocket l (disconnect s) = useWebSocket l s \<and>
   (JSON_parse E p = Some m \<and> property_of m ''type'' = Some (JStr ''telemetry'') \<and>
    listener E = hook_listener \<longrightarrow>
      (\<exists>s'. onmessage E p s = Some (Normal, s') \<and>
            delivered s' = delivered s @ map (\<lambda>l. (l, m)) (members (listeners s)) \<and>
            (\<forall>l \<in> set (members (listeners s)). isConnected (useWebSocket l s'))))"
proof (intro conjI impI)
  show "isConnected (useWebSocket l s) = (\<exists>m \<in> set (received l s). telemetry_or_pong m)"
    by (simp add: useWebSocket_def fold_isConnected hook_init_def)
next
  have "delivered (disconnect s) = delivered s"
    by (auto simp: disconnect_def Let_def close_def split: option.splits)
  then show "useWebSocket l (disconnect s) = useWebSocket l s"
    by (simp add: useWebSocket_def received_def)
next
  assume a: "JSON_parse E p = Some m \<and> property_of m ''type'' = Some (JStr ''telemetry'') \<and>
    listener E = hook_listener"
  then have nn: "m \<noteq> JNull" by auto
  have q: "\<forall>l \<in> set (members (listeners s)). fst (listener E l m) = []"
    using a by (simp add: hook_listener_def)
  have n: "\<forall>l \<in> set (members (listeners s)). snd (listener E l m) = Normal"
    using a nn by (simp add: hook_listener_def useWebSocket_listener_def)
  let ?s' = "s\<lparr> delivered := delivered s @ map (\<lambda>l. (l, m)) (members (listeners s)) \<rparr>"
  have "notifyListeners E m s = Some (Normal, ?s')"
    using notifyListeners_quiet [OF q]
      reached_all [where call = "listener E" and m = m and ls = "members (listeners s)", OF n]
    by simp
  then have o: "onmessage E p s = Some (Normal, ?s')"
    using a by (simp add: onmessage_def onmessage_try_def)
  have "\<forall>l \<in> set (members (listeners s)). isConnected (useWebSocket l ?s')"
  proof
    fix l assume "l \<in> set (members (listeners s))"
    then have "m \<in> set (received l ?s')" by (force simp: received_def)
    moreover have "telemetry_or_pong m" using a by (simp add: telemetry_or_pong_def)
    ultimately show "isConnected (useWebSocket l ?s')"
      by (auto simp: useWebSocket_def fold_isConnected)
  qed
  with o show "\<exists>s'. onmessage E p s = Some (Normal, s') \<and>
            delivered s' = delivered s @ map (\<lambda>l. (l, m)) (members (listeners s)) \<and>
            (\<forall>l \<in> set (members (listeners s)). isConnected (useWebSocket l s'))"
    by (intro exI [of _ ?s']) simp
qed

theorem hook_connected_iff_witness:
  "\<exists>s s'. chan_run hooks_env (mount 1 @ mount 2 @ [SockOpen 0]) channel_init = Some s \<and>
     \<not> isConnected (useWebSocket 1 s) \<and>
     onmessage hooks_env telemetry_frame s = Some (Normal, s') \<and>
     delivered s' = [(1, telemetry_message), (2, telemetry_message)] \<and>
     isConnected (useWebSocket 1 s') \<and> isConnected (useWebSocket 2 s') \<and>
     isConnected (useWebSocket 1 (disconnect s'))"
proof -
  let ?s = "channel_init\<lparr> ws := Some 0, sockets := [OPEN], listeners := [Some 1, Some 2],
      console := [''WebSocket connected''] \<rparr>"
  have r: "chan_run hooks_env (mount 1 @ mount 2 @ [SockOpen 0]) channel_init = Some ?s"
    by (simp add: mount_def channel_init_def connect_def readyState_of_def subscribe_def
        set_add_def onopen_def console_log_def)
  have h: "JSON_parse hooks_env telemetry_frame = Some telemetry_message \<and>
      property_of telemetry_message ''type'' = Some (JStr ''telemetry'') \<and>
      listener hooks_env = hook_listener"
    by (simp add: hooks_env_def JSON_parse_frames_def telemetry_frame_def pong_frame_def
        telemetry_message_def)
  have n: "\<not> isConnected (useWebSocket 1 ?s)"
    by (simp add: useWebSocket_def received_def channel_init_def hook_init_def)
  from hook_connected_iff [of 1 ?s hooks_env telemetry_frame telemetry_message] h
  obtain s' where o: "onmessage hooks_env telemetry_frame ?s = Some (Normal, s')"
    and d: "delivered s' = delivered ?s @ map (\<lambda>l. (l, telemetry_message)) (members (listeners ?s))"
    and c: "\<forall>l \<in> set (members (listeners ?s)). isConnected (useWebSocket l s')"
    by blast
  from c have c12: "isConnected (useWebSocket 1 s')" "isConnected (useWebSocket 2 s')"
    by simp_all
  have "useWebSocket 1 (disconnect s') = useWebSocket 1 s'"
    using hook_connected_iff [of 1 s' hooks_env telemetry_frame telemetry_message] by simp
  with c12 have c3: "isConnected (useWebSocket 1 (disconnect s'))" by simp
  from r n o d c12 c3 show ?thesis
    by (intro exI [of _ ?s] exI [of _ s']) (simp add: channel_init_def)
qed

end
